theory Spec2Isabelle
  imports Main
begin

section \<open>The snake game of \<^verbatim>\<open>the_snake.py\<close>: data model\<close>

text \<open>
  Positions and directions are Python tuples of two unbounded integers. The module
  constants keep their names.
\<close>

type_synonym point = "int \<times> int"

definition SCREEN_WIDTH :: int where "SCREEN_WIDTH = 640"
definition SCREEN_HEIGHT :: int where "SCREEN_HEIGHT = 480"
definition GRID_SIZE :: int where "GRID_SIZE = 20"
definition START_APPLE_POSITION :: point where
  "START_APPLE_POSITION = (SCREEN_WIDTH div 2, SCREEN_HEIGHT div 2)"
definition START_SNAKE_POSITION :: point where
  "START_SNAKE_POSITION = (SCREEN_WIDTH div 4, SCREEN_HEIGHT div 4)"

definition UP :: point where "UP = (0, -1)"
definition DOWN :: point where "DOWN = (0, 1)"
definition LEFT :: point where "LEFT = (-1, 0)"
definition RIGHT :: point where "RIGHT = (1, 0)"
definition START_SNAKE_DIRECTION :: point where "START_SNAKE_DIRECTION = RIGHT"

text \<open>
  Of a \<^verbatim>\<open>pygame.Surface\<close> the game logic reads \<^verbatim>\<open>get_width()\<close> and
  \<^verbatim>\<open>get_height()\<close> only. The window is created with the screen constants.
\<close>

record pygame_surface =
  get_width :: int
  get_height :: int

definition screen :: pygame_surface where
  "screen = \<lparr>get_width = SCREEN_WIDTH, get_height = SCREEN_HEIGHT\<rparr>"

text \<open>
  \<^verbatim>\<open>GameObjectInternal\<close> holds \<^verbatim>\<open>_position\<close>, \<^verbatim>\<open>_surface\<close> and \<^verbatim>\<open>_size\<close>;
  \<^verbatim>\<open>SnakeInternal\<close> extends it. Colours only feed the drawing calls and are left out.
  The apple adds no field that the logic reads.
\<close>

record game_object_internal =
  position :: point
  surface :: pygame_surface
  size_px :: int

type_synonym apple_internal = game_object_internal

record snake_internal = game_object_internal +
  last_tail :: "point option"
  positions :: "point list"
  direction :: point
  next_direction :: "point option"
  increase_flag :: bool
  tail_cache :: "point set"

text \<open>The exceptions the modelled code can raise.\<close>

datatype error = KeyError | ValueError | ZeroDivisionError

text \<open>\<^verbatim>\<open>SnakeInternal.__init__\<close> and \<^verbatim>\<open>AppleInternal.__init__\<close>.\<close>

definition snake_init :: "pygame_surface \<Rightarrow> int \<Rightarrow> point \<Rightarrow> snake_internal" where
  "snake_init sf sz pos =
     \<lparr>position = pos, surface = sf, size_px = sz,
      last_tail = None, positions = [], direction = START_SNAKE_DIRECTION,
      next_direction = None, increase_flag = False, tail_cache = {}\<rparr>"

definition apple_init :: "pygame_surface \<Rightarrow> int \<Rightarrow> point \<Rightarrow> apple_internal" where
  "apple_init sf sz pos = \<lparr>position = pos, surface = sf, size_px = sz\<rparr>"

section \<open>The snake\<close>

definition update_direction :: "point \<Rightarrow> snake_internal \<Rightarrow> snake_internal" where
  "update_direction d s = s\<lparr>next_direction := Some d\<rparr>"

text \<open>\<^verbatim>\<open>_get_next_head\<close>: one step of \<^verbatim>\<open>size\<close> pixels, then the four wrap tests in
  the order of the source.\<close>

definition get_next_head :: "snake_internal \<Rightarrow> point" where
  "get_next_head s =
     (let x0 = fst (position s) + fst (direction s) * size_px s;
          y0 = snd (position s) + snd (direction s) * size_px s;
          x1 = (if x0 < 0 then SCREEN_WIDTH - size_px s else x0);
          x2 = (if x1 > SCREEN_WIDTH - size_px s then 0 else x1);
          y1 = (if y0 < 0 then SCREEN_HEIGHT - size_px s else y0);
          y2 = (if y1 > SCREEN_HEIGHT - size_px s then 0 else y1)
      in (x2, y2))"

definition is_point_in_snake :: "snake_internal \<Rightarrow> point \<Rightarrow> bool" where
  "is_point_in_snake s p = (p \<in> tail_cache s)"

text \<open>
  \<^verbatim>\<open>move\<close>. \<^verbatim>\<open>set.remove\<close> raises \<^verbatim>\<open>KeyError\<close> when the popped tail is not in the
  cache; nothing catches it, so the result is the error.
\<close>

definition move_body :: "snake_internal \<Rightarrow> error + snake_internal" where
  "move_body s =
     (if \<not> increase_flag s then
        (if length (positions s) > 0 then
           (let l = last (positions s);
                s1 = s\<lparr>last_tail := Some l, positions := butlast (positions s)\<rparr>
            in if l \<notin> tail_cache s1 then Inl KeyError
               else
                 (let s2 = s1\<lparr>tail_cache := tail_cache s1 - {l}\<rparr>;
                      s3 = s2\<lparr>positions := position s2 # positions s2\<rparr>
                  in Inr (s3\<lparr>tail_cache := insert (position s3) (tail_cache s3)\<rparr>)))
         else Inr (s\<lparr>last_tail := Some (position s)\<rparr>))
      else
        (let s1 = s\<lparr>positions := position s # positions s\<rparr>;
             s2 = s1\<lparr>tail_cache := insert (position s1) (tail_cache s1)\<rparr>
         in Inr (s2\<lparr>increase_flag := False\<rparr>)))"

definition move :: "snake_internal \<Rightarrow> error + (snake_internal \<times> bool)" where
  "move s =
     (let s1 = s\<lparr>direction :=
                   (case next_direction s of None \<Rightarrow> direction s | Some d \<Rightarrow> d)\<rparr>;
          s2 = s1\<lparr>next_direction := None\<rparr>
      in case move_body s2 of
           Inl e \<Rightarrow> Inl e
         | Inr s3 \<Rightarrow>
             (let s4 = s3\<lparr>position := get_next_head s3\<rparr>
              in Inr (s4, is_point_in_snake s4 (position s4))))"

definition increase :: "snake_internal \<Rightarrow> snake_internal" where
  "increase s = s\<lparr>increase_flag := True\<rparr>"

text \<open>\<^verbatim>\<open>_erase_last\<close> paints over the recorded cell and forgets it; \<^verbatim>\<open>draw\<close> paints and
  ends with \<^verbatim>\<open>_erase_last\<close>. Only the effect on the fields is kept.\<close>

definition erase_last :: "snake_internal \<Rightarrow> snake_internal" where
  "erase_last s = (if last_tail s \<noteq> None then s\<lparr>last_tail := None\<rparr> else s)"

definition draw :: "snake_internal \<Rightarrow> snake_internal" where
  "draw s = erase_last s"

definition reset :: "snake_internal \<Rightarrow> snake_internal" where
  "reset s =
     (let s1 = erase_last s;
          s2 = s1\<lparr>positions := []\<rparr>;
          s3 = s2\<lparr>direction := START_SNAKE_DIRECTION\<rparr>;
          s4 = s3\<lparr>next_direction := None\<rparr>
      in s4\<lparr>tail_cache := {}\<rparr>)"

section \<open>The apple\<close>

text \<open>
  \<^verbatim>\<open>randomize_position\<close>. The values that the two \<^verbatim>\<open>randint\<close> calls of one pass return
  are read from a list of pairs, the finite prefix of the random stream that is supplied;
  \<open>None\<close> says that the loop is still running when the prefix ends. \<^verbatim>\<open>randint(0, n)\<close>
  raises \<^verbatim>\<open>ValueError\<close> for a negative \<open>n\<close>, and \<^verbatim>\<open>%\<close> raises
  \<^verbatim>\<open>ZeroDivisionError\<close> for a zero size. The result carries the samples not yet read.
\<close>

fun randomize_position_loop ::
  "point \<Rightarrow> point list \<Rightarrow> apple_internal \<Rightarrow> (error + apple_internal \<times> point list) option" where
  "randomize_position_loop last_pos [] a =
     (if last_pos = position a then
        (if get_width (surface a) - size_px a < 0 \<or> get_height (surface a) - size_px a < 0
         then Some (Inl ValueError) else None)
      else Some (Inr (a, [])))"
| "randomize_position_loop last_pos ((x, y) # rest) a =
     (if last_pos = position a then
        (if get_width (surface a) - size_px a < 0 \<or> get_height (surface a) - size_px a < 0
         then Some (Inl ValueError)
         else if size_px a = 0 then Some (Inl ZeroDivisionError)
         else randomize_position_loop last_pos rest
                (a\<lparr>position := (x - x mod size_px a, y - y mod size_px a)\<rparr>))
      else Some (Inr (a, (x, y) # rest)))"

definition randomize_position ::
  "point list \<Rightarrow> apple_internal \<Rightarrow> (error + apple_internal \<times> point list) option" where
  "randomize_position samples a = randomize_position_loop (position a) samples a"

section \<open>The controller\<close>

datatype key = K_UP | K_DOWN | K_LEFT | K_RIGHT | K_OTHER

datatype event = QUIT | KEYDOWN key | OTHER_EVENT

record game_controller =
  snake :: snake_internal
  apple :: apple_internal

text \<open>The body of the \<^verbatim>\<open>KEYDOWN\<close> branch of \<^verbatim>\<open>handle_keys\<close>, an if/elif chain.\<close>

definition keydown :: "key \<Rightarrow> snake_internal \<Rightarrow> snake_internal" where
  "keydown k s =
     (if k = K_UP \<and> direction s \<noteq> DOWN then update_direction UP s
      else if k = K_DOWN \<and> direction s \<noteq> UP then update_direction DOWN s
      else if k = K_LEFT \<and> direction s \<noteq> RIGHT then update_direction LEFT s
      else if k = K_RIGHT \<and> direction s \<noteq> LEFT then update_direction RIGHT s
      else s)"

text \<open>\<^verbatim>\<open>handle_keys\<close> over the events polled in this tick; \<open>False\<close> at the first
  \<^verbatim>\<open>QUIT\<close>, with the keys before it already applied.\<close>

fun handle_keys :: "event list \<Rightarrow> snake_internal \<Rightarrow> bool \<times> snake_internal" where
  "handle_keys [] s = (True, s)"
| "handle_keys (QUIT # evs) s = (False, s)"
| "handle_keys (KEYDOWN k # evs) s = handle_keys evs (keydown k s)"
| "handle_keys (OTHER_EVENT # evs) s = handle_keys evs s"

text \<open>\<^verbatim>\<open>randomize_apple\<close>: throw the apple again while it lands on the snake's tail.\<close>

function randomize_apple ::
  "point list \<Rightarrow> snake_internal \<Rightarrow> apple_internal \<Rightarrow> (error + apple_internal \<times> point list) option"
  where
  "randomize_apple samples s a =
     (case randomize_position samples a of
        None \<Rightarrow> None
      | Some (Inl e) \<Rightarrow> Some (Inl e)
      | Some (Inr (a', rest)) \<Rightarrow>
          (if \<not> is_point_in_snake s (position a') then Some (Inr (a', rest))
           else randomize_apple rest s a'))"
  by pat_completeness auto

lemma randomize_position_loop_length:
  "randomize_position_loop lp samples a = Some (Inr (a', rest)) \<Longrightarrow>
     length rest \<le> length samples \<and> (lp = position a \<longrightarrow> length rest < length samples)"
proof (induction lp samples a rule: randomize_position_loop.induct)
  case (1 lp a)
  then show ?case by (simp split: if_splits)
next
  case (2 lp x y later a)
  show ?case
  proof (cases "lp = position a")
    case False
    with 2(2) show ?thesis by simp
  next
    case True
    with 2(2) have ok: "\<not> (get_width (surface a) - size_px a < 0 \<or>
        get_height (surface a) - size_px a < 0)" "size_px a \<noteq> 0"
      by (auto split: if_splits)
    with True 2(2) have "randomize_position_loop lp later
        (a\<lparr>position := (x - x mod size_px a, y - y mod size_px a)\<rparr>) = Some (Inr (a', rest))"
      by simp
    with 2(1) True ok have "length rest \<le> length later" by blast
    then show ?thesis by simp
  qed
qed

termination randomize_apple
proof (relation "measure (\<lambda>(samples, s, a). length samples)")
  show "wf (measure (\<lambda>(samples, s, a). length samples))" by simp
next
  fix samples :: "point list" and s :: snake_internal and a :: apple_internal
    and x2 x2a x a' rest
  assume "randomize_position samples a = Some x2" "x2 = Inr x2a" "(a', rest) = x2a"
  then have "randomize_position_loop (position a) samples a = Some (Inr (a', rest))"
    by (simp add: randomize_position_def)
  from randomize_position_loop_length [OF this]
  show "((rest, s, a'), samples, s, a) \<in> measure (\<lambda>(samples, s, a). length samples)"
    by simp
qed

text \<open>\<^verbatim>\<open>validate_snake_head\<close>: on the apple, mark the snake for growth and throw the
  apple again.\<close>

definition validate_snake_head ::
  "point list \<Rightarrow> game_controller \<Rightarrow> (error + game_controller) option" where
  "validate_snake_head samples g =
     (if position (snake g) = position (apple g) then
        (let s = increase (snake g) in
         case randomize_apple samples s (apple g) of
           None \<Rightarrow> None
         | Some (Inl e) \<Rightarrow> Some (Inl e)
         | Some (Inr (a', rest)) \<Rightarrow> Some (Inr \<lparr>snake = s, apple = a'\<rparr>))
      else Some (Inr g))"

text \<open>
  One pass of the loop of \<^verbatim>\<open>main\<close>, given the events polled and the random samples
  available in this tick. The loop ends on \<^verbatim>\<open>QUIT\<close>, an uncaught exception ends the
  program, and a relocation that is still running when the samples end never reaches the
  next tick.
\<close>

datatype outcome = Continue game_controller | Break | Raised error | Starved

definition tick :: "event list \<Rightarrow> point list \<Rightarrow> game_controller \<Rightarrow> outcome" where
  "tick evs samples g =
     (case handle_keys evs (snake g) of
        (False, s) \<Rightarrow> Break
      | (True, s) \<Rightarrow>
          (case move s of
             Inl e \<Rightarrow> Raised e
           | Inr (s', collided) \<Rightarrow>
               (case (if collided then
                        (let s'' = reset s' in
                         case randomize_apple samples s'' (apple g) of
                           None \<Rightarrow> None
                         | Some (Inl e) \<Rightarrow> Some (Inl e)
                         | Some (Inr (a', rest)) \<Rightarrow> Some (Inr \<lparr>snake = s'', apple = a'\<rparr>))
                      else validate_snake_head samples \<lparr>snake = s', apple = apple g\<rparr>) of
                  None \<Rightarrow> Starved
                | Some (Inl e) \<Rightarrow> Raised e
                | Some (Inr g') \<Rightarrow> Continue (g'\<lparr>snake := draw (snake g')\<rparr>))))"

text \<open>\<^verbatim>\<open>main\<close>: the objects it creates, and its loop run over the inputs of
  successive ticks; with no inputs left the state reached is reported.\<close>

definition start_game :: game_controller where
  "start_game =
     \<lparr>snake = draw (snake_init screen GRID_SIZE START_SNAKE_POSITION),
      apple = apple_init screen GRID_SIZE START_APPLE_POSITION\<rparr>"

fun main_loop :: "(event list \<times> point list) list \<Rightarrow> game_controller \<Rightarrow> outcome" where
  "main_loop [] g = Continue g"
| "main_loop ((evs, samples) # later) g =
     (case tick evs samples g of
        Continue g' \<Rightarrow> main_loop later g'
      | Break \<Rightarrow> Break
      | Raised e \<Rightarrow> Raised e
      | Starved \<Rightarrow> Starved)"

section \<open>Vocabulary of the properties\<close>

text \<open>The direction a key asks for: the argument that \<^verbatim>\<open>handle_keys\<close> passes to
  \<^verbatim>\<open>update_direction\<close> for it. The opposite of a direction is its negation.\<close>

fun key_direction :: "key \<Rightarrow> point option" where
  "key_direction K_UP = Some UP"
| "key_direction K_DOWN = Some DOWN"
| "key_direction K_LEFT = Some LEFT"
| "key_direction K_RIGHT = Some RIGHT"
| "key_direction K_OTHER = None"

definition opposite :: "point \<Rightarrow> point" where
  "opposite d = (- fst d, - snd d)"

text \<open>What holds of the snake between two passes of the loop of \<^verbatim>\<open>main\<close>.\<close>

definition snake_inv :: "snake_internal \<Rightarrow> bool" where
  "snake_inv s \<longleftrightarrow>
     tail_cache s = set (positions s) \<and> distinct (positions s) \<and>
     position s \<notin> set (positions s) \<and> direction s \<in> {UP, DOWN, LEFT, RIGHT} \<and>
     next_direction s = None \<and> size_px s = GRID_SIZE"

text \<open>A snake with two trailing segments, heading right.\<close>

definition two_segments :: snake_internal where
  "two_segments =
     \<lparr>position = (200, 120), surface = screen, size_px = GRID_SIZE,
      last_tail = None, positions = [(180, 120), (160, 120)], direction = RIGHT,
      next_direction = None, increase_flag = False, tail_cache = {(180, 120), (160, 120)}\<rparr>"

text \<open>A snake with one trailing segment, its head in the rightmost column.\<close>

definition at_right_edge :: snake_internal where
  "at_right_edge =
     \<lparr>position = (620, 120), surface = screen, size_px = GRID_SIZE,
      last_tail = None, positions = [(600, 120)], direction = RIGHT,
      next_direction = None, increase_flag = False, tail_cache = {(600, 120)}\<rparr>"

text \<open>
  A run of the game. Eight ticks to the right and, after the down key, six ticks down
  bring the head onto the first apple, which the sample \<open>(325, 265)\<close> throws one cell
  ahead. The states named below are the one reached there, the one after the next tick,
  in which that apple is eaten as well, and the one a further tick later, when the snake
  has two trailing segments.
\<close>

definition to_the_apple :: "(event list \<times> point list) list" where
  "to_the_apple =
     replicate 8 ([], []) @ [([KEYDOWN K_DOWN], [])] @ replicate 4 ([], []) @
     [([], [(325, 265)])]"

definition first_apple_eaten :: game_controller where
  "first_apple_eaten =
     \<lparr>snake = \<lparr>position = (320, 240), surface = screen, size_px = GRID_SIZE,
        last_tail = None, positions = [], direction = DOWN,
        next_direction = None, increase_flag = True, tail_cache = {}\<rparr>,
      apple = \<lparr>position = (320, 260), surface = screen, size_px = GRID_SIZE\<rparr>\<rparr>"

definition second_apple_eaten :: game_controller where
  "second_apple_eaten =
     \<lparr>snake = \<lparr>position = (320, 260), surface = screen, size_px = GRID_SIZE,
        last_tail = None, positions = [(320, 240)], direction = DOWN,
        next_direction = None, increase_flag = True, tail_cache = {(320, 240)}\<rparr>,
      apple = \<lparr>position = (320, 260), surface = screen, size_px = GRID_SIZE\<rparr>\<rparr>"

definition two_long :: game_controller where
  "two_long =
     \<lparr>snake = \<lparr>position = (320, 280), surface = screen, size_px = GRID_SIZE,
        last_tail = None, positions = [(320, 260), (320, 240)], direction = DOWN,
        next_direction = None, increase_flag = False,
        tail_cache = {(320, 260), (320, 240)}\<rparr>,
      apple = \<lparr>position = (320, 260), surface = screen, size_px = GRID_SIZE\<rparr>\<rparr>"





text \<open>
  A snake of four trailing segments coiled so that a step down from its head lands on its
  third segment: the game before that tick, the snake with the down key accepted, the
  snake as \<^verbatim>\<open>move\<close> leaves it, and the game after the tick, the apple thrown by the
  sample \<open>(5, 5)\<close>.
\<close>

definition coiled :: game_controller where
  "coiled =
     \<lparr>snake = \<lparr>position = (200, 120), surface = screen, size_px = GRID_SIZE,
        last_tail = None,
        positions = [(220, 120), (220, 140), (200, 140), (180, 140)], direction = LEFT,
        next_direction = None, increase_flag = False,
        tail_cache = {(220, 120), (220, 140), (200, 140), (180, 140)}\<rparr>,
      apple = \<lparr>position = (320, 240), surface = screen, size_px = GRID_SIZE\<rparr>\<rparr>"

definition coiled_down :: snake_internal where
  "coiled_down = (snake coiled)\<lparr>next_direction := Some DOWN\<rparr>"

definition bitten :: snake_internal where
  "bitten =
     \<lparr>position = (200, 140), surface = screen, size_px = GRID_SIZE,
      last_tail = Some (180, 140),
      positions = [(200, 120), (220, 120), (220, 140), (200, 140)], direction = DOWN,
      next_direction = None, increase_flag = False,
      tail_cache = {(200, 120), (220, 120), (220, 140), (200, 140)}\<rparr>"

definition after_bite :: game_controller where
  "after_bite =
     \<lparr>snake = \<lparr>position = (200, 140), surface = screen, size_px = GRID_SIZE,
        last_tail = None, positions = [], direction = RIGHT,
        next_direction = None, increase_flag = False, tail_cache = {}\<rparr>,
      apple = \<lparr>position = (0, 0), surface = screen, size_px = GRID_SIZE\<rparr>\<rparr>"



section \<open>Auxiliary facts\<close>

subsection \<open>Fields that the operations keep\<close>

lemmas dir_defs = UP_def DOWN_def LEFT_def RIGHT_def

lemma funpow_increase: "(increase ^^ Suc n) s = increase s"
  by (induction n) (simp_all add: increase_def)

lemma reset_fields:
  "positions (reset s) = [] \<and> tail_cache (reset s) = {} \<and> direction (reset s) = RIGHT
   \<and> next_direction (reset s) = None \<and> position (reset s) = position s
   \<and> last_tail (reset s) = None \<and> increase_flag (reset s) = increase_flag s \<and> size_px (reset s) = size_px s"
  by (cases "last_tail s") (simp_all add: reset_def erase_last_def Let_def START_SNAKE_DIRECTION_def)

lemma keydown_fields:
  "position (keydown k s) = position s" "size_px (keydown k s) = size_px s"
  "surface (keydown k s) = surface s" "last_tail (keydown k s) = last_tail s"
  "positions (keydown k s) = positions s" "direction (keydown k s) = direction s"
  "increase_flag (keydown k s) = increase_flag s" "tail_cache (keydown k s) = tail_cache s"
  by (simp_all add: keydown_def update_direction_def)

lemma handle_keys_fields:
  assumes "handle_keys evs s = (b, s1)"
  shows "position s1 = position s" and "size_px s1 = size_px s"
    and "surface s1 = surface s" and "last_tail s1 = last_tail s"
    and "positions s1 = positions s" and "direction s1 = direction s"
    and "increase_flag s1 = increase_flag s" and "tail_cache s1 = tail_cache s"
  using assms
  by (induction evs s rule: handle_keys.induct) (simp_all add: keydown_fields)

subsection \<open>Keys and the pending direction\<close>


lemma keydown_pending:
  "next_direction (keydown k s) = next_direction s \<or>
   (\<exists>d. next_direction (keydown k s) = Some d \<and> key_direction k = Some d \<and> direction s \<noteq> opposite d)"
  by (cases k) (auto simp: keydown_def opposite_def dir_defs update_direction_def)

lemma key_direction_four: "key_direction k = Some d \<Longrightarrow> d \<in> {UP, DOWN, LEFT, RIGHT}"
  by (cases k) auto

lemma handle_keys_pending:
  "handle_keys evs s = (b, s1) \<Longrightarrow>
   next_direction s1 = next_direction s \<or>
   (\<exists>k d. next_direction s1 = Some d \<and> key_direction k = Some d \<and> direction s \<noteq> opposite d)"
proof (induction evs s rule: handle_keys.induct)
  case (3 k evs s)
  then have "next_direction s1 = next_direction (keydown k s) \<or>
   (\<exists>k' d. next_direction s1 = Some d \<and> key_direction k' = Some d \<and> direction (keydown k s) \<noteq> opposite d)"
    by simp
  with keydown_pending [of k s] show ?case
    by (auto simp: keydown_fields)
qed auto


subsection \<open>What move returns\<close>

text \<open>The three ways through \<^verbatim>\<open>move\<close>, and the fields of its result.\<close>

lemma move_body_unfold:
  "move_body s =
     (if increase_flag s then
        Inr (s\<lparr>positions := position s # positions s,
               tail_cache := insert (position s) (tail_cache s), increase_flag := False\<rparr>)
      else if positions s = [] then Inr (s\<lparr>last_tail := Some (position s)\<rparr>)
      else if last (positions s) \<notin> tail_cache s then Inl KeyError
      else Inr (s\<lparr>last_tail := Some (last (positions s)),
                  positions := position s # butlast (positions s),
                  tail_cache := insert (position s) (tail_cache s - {last (positions s)})\<rparr>))"
  by (simp add: move_body_def Let_def)

lemma move_body_fields:
  assumes "move_body s = Inr s'"
  shows "direction s' = direction s"
    and "next_direction s' = next_direction s"
    and "size_px s' = size_px s"
    and "surface s' = surface s"
    and "position s' = position s"
    and "\<not> increase_flag s'"
    and "positions s' = (if increase_flag s then position s # positions s
                         else if positions s = [] then []
                         else position s # butlast (positions s))"
    and "tail_cache s' = (if increase_flag s then insert (position s) (tail_cache s)
                          else if positions s = [] then tail_cache s
                          else insert (position s) (tail_cache s - {last (positions s)}))"
proof -
  consider (grow) "increase_flag s"
    | (bare) "\<not> increase_flag s" "positions s = []"
    | (shift) "\<not> increase_flag s" "positions s \<noteq> []" "last (positions s) \<in> tail_cache s"
    using assms by (auto simp: move_body_unfold split: if_splits)
  then have "direction s' = direction s \<and> next_direction s' = next_direction s \<and>
     size_px s' = size_px s \<and> surface s' = surface s \<and> position s' = position s \<and>
     \<not> increase_flag s' \<and>
     positions s' = (if increase_flag s then position s # positions s
                         else if positions s = [] then []
                         else position s # butlast (positions s)) \<and>
     tail_cache s' = (if increase_flag s then insert (position s) (tail_cache s)
                          else if positions s = [] then tail_cache s
                          else insert (position s) (tail_cache s - {last (positions s)}))"
  proof cases
    case grow
    with assms have "s' = s\<lparr>positions := position s # positions s,
               tail_cache := insert (position s) (tail_cache s), increase_flag := False\<rparr>"
      by (simp add: move_body_unfold)
    with grow show ?thesis by simp
  next
    case bare
    with assms have "s' = s\<lparr>last_tail := Some (position s)\<rparr>"
      by (simp add: move_body_unfold)
    with bare show ?thesis by simp
  next
    case shift
    with assms have "s' = s\<lparr>last_tail := Some (last (positions s)),
                  positions := position s # butlast (positions s),
                  tail_cache := insert (position s) (tail_cache s - {last (positions s)})\<rparr>"
      by (simp add: move_body_unfold)
    with shift show ?thesis by simp
  qed
  then show "direction s' = direction s"
    and "next_direction s' = next_direction s"
    and "size_px s' = size_px s"
    and "surface s' = surface s"
    and "position s' = position s"
    and "\<not> increase_flag s'"
    and "positions s' = (if increase_flag s then position s # positions s
                         else if positions s = [] then []
                         else position s # butlast (positions s))"
    and "tail_cache s' = (if increase_flag s then insert (position s) (tail_cache s)
                          else if positions s = [] then tail_cache s
                          else insert (position s) (tail_cache s - {last (positions s)}))"
    by blast+
qed

lemma move_unfold:
  "move s = (case move_body (s\<lparr>direction :=
                   (case next_direction s of None \<Rightarrow> direction s | Some d \<Rightarrow> d),
                   next_direction := None\<rparr>) of
           Inl e \<Rightarrow> Inl e
         | Inr s3 \<Rightarrow> Inr (s3\<lparr>position := get_next_head s3\<rparr>, get_next_head s3 \<in> tail_cache s3))"
  by (simp add: move_def Let_def is_point_in_snake_def split: sum.split)


lemma move_fields:
  assumes "move s = Inr (s', c)"
  shows "direction s' = (case next_direction s of None \<Rightarrow> direction s | Some d \<Rightarrow> d)"
    and "next_direction s' = None"
    and "size_px s' = size_px s"
    and "surface s' = surface s"
    and "\<not> increase_flag s'"
    and "position s' = get_next_head (s\<lparr>direction := direction s'\<rparr>)"
    and "c = (position s' \<in> tail_cache s')"
    and "positions s' = (if increase_flag s then position s # positions s
                         else if positions s = [] then []
                         else position s # butlast (positions s))"
    and "tail_cache s' = (if increase_flag s then insert (position s) (tail_cache s)
                          else if positions s = [] then tail_cache s
                          else insert (position s) (tail_cache s - {last (positions s)}))"
proof -
  define s0 where "s0 = s\<lparr>direction :=
      (case next_direction s of None \<Rightarrow> direction s | Some d \<Rightarrow> d), next_direction := None\<rparr>"
  from assms obtain s3 where b: "move_body s0 = Inr s3"
    and s': "s' = s3\<lparr>position := get_next_head s3\<rparr>"
    and c: "c = (get_next_head s3 \<in> tail_cache s3)"
    unfolding move_unfold s0_def by (auto split: sum.splits)
  note f = move_body_fields [OF b]
  show "direction s' = (case next_direction s of None \<Rightarrow> direction s | Some d \<Rightarrow> d)"
    using f(1) by (simp add: s' s0_def)
  show "next_direction s' = None" using f(2) by (simp add: s' s0_def)
  show "size_px s' = size_px s" using f(3) by (simp add: s' s0_def)
  show "surface s' = surface s" using f(4) by (simp add: s' s0_def)
  show "\<not> increase_flag s'" using f(6) by (simp add: s')
  show "position s' = get_next_head (s\<lparr>direction := direction s'\<rparr>)"
    using f(1) f(3) f(5) by (simp add: s' s0_def get_next_head_def Let_def)
  show "c = (position s' \<in> tail_cache s')" by (simp add: s' c)
  show "positions s' = (if increase_flag s then position s # positions s
                         else if positions s = [] then []
                         else position s # butlast (positions s))"
    using f(7) by (simp add: s' s0_def)
  show "tail_cache s' = (if increase_flag s then insert (position s) (tail_cache s)
                          else if positions s = [] then tail_cache s
                          else insert (position s) (tail_cache s - {last (positions s)}))"
    using f(8) by (simp add: s' s0_def)
qed


lemma move_returns:
  "increase_flag s \<or> positions s = [] \<or> last (positions s) \<in> tail_cache s \<Longrightarrow>
     \<exists>s' c. move s = Inr (s', c)"
  by (auto simp: move_def move_body_def Let_def)

lemma move_returns_synced:
  "tail_cache s = set (positions s) \<Longrightarrow> \<exists>s' c. move s = Inr (s', c)"
  by (rule move_returns) (cases "positions s = []", simp_all)


lemma move_increase:
  "\<exists>s' c. move (increase s) = Inr (s', c) \<and> positions s' = position s # positions s \<and>
     \<not> increase_flag s'"
proof -
  have "increase_flag (increase s)" by (simp add: increase_def)
  then obtain s' c where m: "move (increase s) = Inr (s', c)"
    using move_returns [of "increase s"] by blast
  from move_fields(5,8) [OF m] have "positions s' = position s # positions s" "\<not> increase_flag s'"
    by (simp_all add: increase_def)
  with m show ?thesis by blast
qed

subsection \<open>The start of the game\<close>

lemma start_snake:
  "snake start_game =
     \<lparr>position = (160, 120), surface = \<lparr>get_width = 640, get_height = 480\<rparr>, size_px = 20,
      last_tail = None, positions = [], direction = (1, 0), next_direction = None,
      increase_flag = False, tail_cache = {}\<rparr>"
  by (simp add: start_game_def draw_def erase_last_def snake_init_def screen_def
      START_SNAKE_POSITION_def START_SNAKE_DIRECTION_def RIGHT_def GRID_SIZE_def
      SCREEN_WIDTH_def SCREEN_HEIGHT_def)

lemma start_apple:
  "apple start_game =
     \<lparr>position = (320, 240), surface = \<lparr>get_width = 640, get_height = 480\<rparr>, size_px = 20\<rparr>"
  by (simp add: start_game_def apple_init_def screen_def START_APPLE_POSITION_def
      GRID_SIZE_def SCREEN_WIDTH_def SCREEN_HEIGHT_def)


subsection \<open>The next head\<close>

lemma aligned_le:
  fixes x :: int
  assumes "20 dvd x" "x < 640"
  shows "x \<le> 620"
  using assms by presburger

lemma aligned_le_h:
  fixes y :: int
  assumes "20 dvd y" "y < 480"
  shows "y \<le> 460"
  using assms by presburger

lemma get_next_head_wrap:
  assumes sz: "size_px s = GRID_SIZE"
    and pos: "position s = (x, y)"
    and x: "0 \<le> x" "x < SCREEN_WIDTH" "GRID_SIZE dvd x"
    and y: "0 \<le> y" "y < SCREEN_HEIGHT" "GRID_SIZE dvd y"
    and d: "direction s = (dx, dy)" "(dx, dy) \<in> {UP, DOWN, LEFT, RIGHT}"
  shows "\<exists>x' y'. get_next_head s = (x', y') \<and>
      0 \<le> x' \<and> x' < SCREEN_WIDTH \<and> GRID_SIZE dvd x' \<and>
      0 \<le> y' \<and> y' < SCREEN_HEIGHT \<and> GRID_SIZE dvd y' \<and>
      x' = (if x + dx * GRID_SIZE < 0 then SCREEN_WIDTH - GRID_SIZE
            else if SCREEN_WIDTH \<le> x + dx * GRID_SIZE then 0 else x + dx * GRID_SIZE) \<and>
      y' = (if y + dy * GRID_SIZE < 0 then SCREEN_HEIGHT - GRID_SIZE
            else if SCREEN_HEIGHT \<le> y + dy * GRID_SIZE then 0 else y + dy * GRID_SIZE)"
proof -
  from x have xb: "0 \<le> x" "x \<le> 620" "20 dvd x"
    by (simp_all add: SCREEN_WIDTH_def GRID_SIZE_def aligned_le)
  from y have yb: "0 \<le> y" "y \<le> 460" "20 dvd y"
    by (simp_all add: SCREEN_HEIGHT_def GRID_SIZE_def aligned_le_h)
  have xs: "x + 20 > 620 \<longleftrightarrow> x = 620" "x - 20 < 0 \<longleftrightarrow> x = 0"
    using xb by presburger+
  have ys: "y + 20 > 460 \<longleftrightarrow> y = 460" "y - 20 < 0 \<longleftrightarrow> y = 0"
    using yb by presburger+
  from d(2) consider "dx = 0 \<and> dy = -1" | "dx = 0 \<and> dy = 1" | "dx = -1 \<and> dy = 0" | "dx = 1 \<and> dy = 0"
    by (auto simp: dir_defs)
  then show ?thesis
  proof cases
    case 1
    then show ?thesis using xb yb ys
      by (auto simp: get_next_head_def Let_def sz pos d(1) GRID_SIZE_def SCREEN_WIDTH_def SCREEN_HEIGHT_def)
  next
    case 2
    then show ?thesis using xb yb ys
      by (auto simp: get_next_head_def Let_def sz pos d(1) GRID_SIZE_def SCREEN_WIDTH_def SCREEN_HEIGHT_def)
  next
    case 3
    then show ?thesis using xb yb xs
      by (auto simp: get_next_head_def Let_def sz pos d(1) GRID_SIZE_def SCREEN_WIDTH_def SCREEN_HEIGHT_def)
  next
    case 4
    then show ?thesis using xb yb xs
      by (auto simp: get_next_head_def Let_def sz pos d(1) GRID_SIZE_def SCREEN_WIDTH_def SCREEN_HEIGHT_def)
  qed
qed

lemma get_next_head_moves:
  assumes "size_px s = GRID_SIZE" "direction s \<in> {UP, DOWN, LEFT, RIGHT}"
  shows "get_next_head s \<noteq> position s"
proof -
  obtain x y where p: "position s = (x, y)" by (cases "position s")
  from assms(2) consider "direction s = (0, -1)" | "direction s = (0, 1)"
    | "direction s = (-1, 0)" | "direction s = (1, 0)"
    by (auto simp: dir_defs)
  then show ?thesis
    by cases (auto simp: get_next_head_def Let_def p assms(1) GRID_SIZE_def SCREEN_WIDTH_def
        SCREEN_HEIGHT_def)
qed

subsection \<open>The invariant of the loop\<close>

text \<open>Dropping the last of distinct segments removes exactly that cell, so \<^verbatim>\<open>move\<close>
  keeps cache and segments in step; a tick keeps \<open>snake_inv\<close>.\<close>

lemma set_butlast_distinct:
  assumes "distinct ps" "ps \<noteq> []"
  shows "set (butlast ps) = set ps - {last ps}"
proof -
  from assms(2) have e: "butlast ps @ [last ps] = ps" by simp
  with assms(1) have "distinct (butlast ps @ [last ps])" by simp
  then have "last ps \<notin> set (butlast ps)" by simp
  moreover from e have "set ps = insert (last ps) (set (butlast ps))"
    by (metis list.simps(15) rotate1.simps(2) set_rotate1)
  ultimately show ?thesis by auto
qed

lemma move_keeps_sync:
  assumes sync: "tail_cache s = set (positions s)"
    and dist: "distinct (positions s)"
    and head: "position s \<notin> set (positions s)"
    and m: "move s = Inr (s', c)"
  shows "tail_cache s' = set (positions s')" and "distinct (positions s')"
    and "c = (position s' \<in> set (positions s'))"
proof -
  note f = move_fields [OF m]
  show sync': "tail_cache s' = set (positions s')"
  proof (cases "increase_flag s \<or> positions s = []")
    case True
    then show ?thesis using f(8,9) sync by auto
  next
    case False
    then have "set (butlast (positions s)) = set (positions s) - {last (positions s)}"
      using dist by (simp add: set_butlast_distinct)
    with False show ?thesis using f(8,9) sync by simp
  qed
  show "distinct (positions s')"
  proof (cases "increase_flag s \<or> positions s = []")
    case True
    then show ?thesis using f(8) dist head by auto
  next
    case False
    have "distinct (butlast (positions s))" using dist by (rule distinct_butlast)
    moreover have "position s \<notin> set (butlast (positions s))"
      using head by (meson in_set_butlastD)
    ultimately show ?thesis using False f(8) by simp
  qed
  show "c = (position s' \<in> set (positions s'))" using f(7) sync' by simp
qed

lemma draw_fields:
  "position (draw s) = position s" "size_px (draw s) = size_px s"
  "surface (draw s) = surface s" "last_tail (draw s) = None"
  "positions (draw s) = positions s" "direction (draw s) = direction s"
  "next_direction (draw s) = next_direction s"
  "increase_flag (draw s) = increase_flag s" "tail_cache (draw s) = tail_cache s"
  by (cases "last_tail s"; simp add: draw_def erase_last_def)+

lemma increase_fields:
  "position (increase s) = position s" "size_px (increase s) = size_px s"
  "surface (increase s) = surface s" "last_tail (increase s) = last_tail s"
  "positions (increase s) = positions s" "direction (increase s) = direction s"
  "next_direction (increase s) = next_direction s"
  "increase_flag (increase s)" "tail_cache (increase s) = tail_cache s"
  by (simp_all add: increase_def)

lemma validate_snake_head_snake:
  assumes "validate_snake_head samples g = Some (Inr g')"
  shows "snake g' = snake g \<or> (position (snake g) = position (apple g) \<and> snake g' = increase (snake g))"
  using assms
  by (auto simp: validate_snake_head_def Let_def split: if_splits option.splits sum.splits)

lemma tick_Continue:
  assumes "tick evs samples g = Continue g'"
  shows "\<exists>s1 s2 c. handle_keys evs (snake g) = (True, s1) \<and> move s1 = Inr (s2, c) \<and>
      (if c then snake g' = draw (reset s2)
       else snake g' = draw s2 \<or> snake g' = draw (increase s2))"
proof -
  obtain b s1 where hk: "handle_keys evs (snake g) = (b, s1)" by (cases "handle_keys evs (snake g)")
  with assms have b: "b" by (cases b) (simp_all add: tick_def)
  from assms hk b obtain s2 c where m: "move s1 = Inr (s2, c)"
    by (cases "move s1") (auto simp: tick_def)
  show ?thesis
  proof (cases c)
    case True
    with assms hk b m have "snake g' = draw (reset s2)"
      by (auto simp: tick_def Let_def split: option.splits sum.splits)
    with hk b m True show ?thesis by auto
  next
    case False
    with assms hk b m obtain g'' where v: "validate_snake_head samples \<lparr>snake = s2, apple = apple g\<rparr> = Some (Inr g'')"
      and g': "g' = g''\<lparr>snake := draw (snake g'')\<rparr>"
      by (auto simp: tick_def split: option.splits sum.splits)
    from validate_snake_head_snake [OF v] g'
    have "snake g' = draw s2 \<or> snake g' = draw (increase s2)" by auto
    with hk b m False show ?thesis by auto
  qed
qed


lemma start_inv: "snake_inv (snake start_game)"
  by (simp add: snake_inv_def start_snake dir_defs GRID_SIZE_def)

lemma handle_keys_next_four:
  assumes "handle_keys evs s = (b, s1)" "next_direction s = None"
  shows "next_direction s1 = None \<or> (\<exists>d. next_direction s1 = Some d \<and> d \<in> {UP, DOWN, LEFT, RIGHT})"
proof -
  from handle_keys_pending [OF assms(1)] show ?thesis
  proof
    assume "next_direction s1 = next_direction s"
    with assms(2) show ?thesis by simp
  next
    assume "\<exists>k d. next_direction s1 = Some d \<and> key_direction k = Some d \<and>
      direction s \<noteq> opposite d"
    then obtain k d where "next_direction s1 = Some d" "key_direction k = Some d" by blast
    with key_direction_four [of k d] show ?thesis by blast
  qed
qed

lemma snake_invI:
  "tail_cache s = set (positions s) \<Longrightarrow> distinct (positions s) \<Longrightarrow>
   position s \<notin> set (positions s) \<Longrightarrow> direction s \<in> {UP, DOWN, LEFT, RIGHT} \<Longrightarrow>
   next_direction s = None \<Longrightarrow> size_px s = GRID_SIZE \<Longrightarrow> snake_inv s"
  by (simp add: snake_inv_def)

lemma snake_invD:
  assumes "snake_inv s"
  shows "tail_cache s = set (positions s)" and "distinct (positions s)"
    and "position s \<notin> set (positions s)" and "direction s \<in> {UP, DOWN, LEFT, RIGHT}"
    and "next_direction s = None" and "size_px s = GRID_SIZE"
  using assms by (simp_all add: snake_inv_def)

lemma move_after_keys:
  assumes inv: "snake_inv s" and hk: "handle_keys evs s = (b, s1)"
  shows "tail_cache s1 = set (positions s1)"
    and "\<exists>s2 c. move s1 = Inr (s2, c)"
    and "move s1 = Inr (s2, c) \<Longrightarrow>
           tail_cache s2 = set (positions s2) \<and> distinct (positions s2) \<and>
           c = (position s2 \<in> set (positions s2)) \<and>
           direction s2 \<in> {UP, DOWN, LEFT, RIGHT} \<and> next_direction s2 = None \<and>
           size_px s2 = GRID_SIZE \<and> \<not> increase_flag s2"
proof -
  note k = handle_keys_fields [OF hk]
  note i = snake_invD [OF inv]
  show sync: "tail_cache s1 = set (positions s1)" using i(1) by (simp add: k)
  then show "\<exists>s2 c. move s1 = Inr (s2, c)" by (rule move_returns_synced)
  assume m: "move s1 = Inr (s2, c)"
  have dist: "distinct (positions s1)" using i(2) by (simp add: k)
  have head: "position s1 \<notin> set (positions s1)" using i(3) by (simp add: k)
  note f = move_fields [OF m]
  note y = move_keeps_sync [OF sync dist head m]
  have d1: "direction s1 \<in> {UP, DOWN, LEFT, RIGHT}" using i(4) by (simp add: k)
  have d: "direction s2 \<in> {UP, DOWN, LEFT, RIGHT}"
  proof (cases "next_direction s1")
    case None
    with f(1) d1 show ?thesis by simp
  next
    case (Some n)
    with handle_keys_next_four [OF hk i(5)] have "n \<in> {UP, DOWN, LEFT, RIGHT}" by simp
    with f(1) Some show ?thesis by simp
  qed
  have sz: "size_px s2 = GRID_SIZE" using f(3) i(6) by (simp add: k)
  from y d f(2) sz f(5) show "tail_cache s2 = set (positions s2) \<and> distinct (positions s2) \<and>
           c = (position s2 \<in> set (positions s2)) \<and>
           direction s2 \<in> {UP, DOWN, LEFT, RIGHT} \<and> next_direction s2 = None \<and>
           size_px s2 = GRID_SIZE \<and> \<not> increase_flag s2" by (intro conjI)
qed

lemma tick_inv:
  assumes inv: "snake_inv (snake g)" and t: "tick evs samples g = Continue g'"
  shows "snake_inv (snake g')"
proof -
  from tick_Continue [OF t] obtain s1 s2 c where hk: "handle_keys evs (snake g) = (True, s1)"
    and m: "move s1 = Inr (s2, c)"
    and g': "if c then snake g' = draw (reset s2)
       else snake g' = draw s2 \<or> snake g' = draw (increase s2)" by blast
  from move_after_keys(3) [OF inv hk m]
  have y: "tail_cache s2 = set (positions s2)" "distinct (positions s2)"
    "c = (position s2 \<in> set (positions s2))" "direction s2 \<in> {UP, DOWN, LEFT, RIGHT}"
    "next_direction s2 = None" "size_px s2 = GRID_SIZE" by simp_all
  show ?thesis
  proof (cases c)
    case True
    with g' have e: "snake g' = draw (reset s2)" by simp
    show ?thesis unfolding e
    proof (rule snake_invI)
      show "direction (draw (reset s2)) \<in> {UP, DOWN, LEFT, RIGHT}"
        by (simp add: draw_fields reset_fields)
    qed (simp_all add: draw_fields reset_fields y(6))
  next
    case False
    with g' have "snake g' = draw s2 \<or> snake g' = draw (increase s2)" by simp
    then show ?thesis
    proof
      assume e: "snake g' = draw s2"
      show ?thesis unfolding e using y False
        by (intro snake_invI) (simp_all add: draw_fields)
    next
      assume e: "snake g' = draw (increase s2)"
      show ?thesis unfolding e using y False
        by (intro snake_invI) (simp_all add: draw_fields increase_fields)
    qed
  qed
qed

lemma main_loop_inv:
  "snake_inv (snake g) \<Longrightarrow> main_loop inputs g = Continue g' \<Longrightarrow> snake_inv (snake g')"
proof (induction inputs arbitrary: g)
  case Nil
  then show ?case by simp
next
  case (Cons i inputs)
  obtain evs samples where i: "i = (evs, samples)" by (cases i)
  with Cons.prems(2) obtain g1 where t: "tick evs samples g = Continue g1"
    and r: "main_loop inputs g1 = Continue g'"
    by (cases "tick evs samples g") simp_all
  from tick_inv [OF Cons.prems(1) t] have "snake_inv (snake g1)" .
  then show ?case using r by (rule Cons.IH)
qed

lemma reachable_inv: "main_loop inputs start_game = Continue g \<Longrightarrow> snake_inv (snake g)"
  using start_inv by (rule main_loop_inv)

subsection \<open>The example states\<close>

lemma two_segments_fields:
  "tail_cache two_segments = set (positions two_segments)" "\<not> increase_flag two_segments"
  "length (positions two_segments) = 2" "length (positions two_segments) + 1 = 3"
  "position two_segments # positions two_segments = [(200, 120), (180, 120), (160, 120)]"
  by (simp_all add: two_segments_def)

lemma run_to_the_apple: "main_loop to_the_apple start_game = Continue first_apple_eaten"
  by code_simp

lemma tick_second_apple:
  "tick [] [(330, 250), (321, 262)] first_apple_eaten = Continue second_apple_eaten"
  by code_simp

lemma main_loop_append:
  "main_loop (xs @ ys) g =
     (case main_loop xs g of Continue g' \<Rightarrow> main_loop ys g' | Break \<Rightarrow> Break
      | Raised e \<Rightarrow> Raised e | Starved \<Rightarrow> Starved)"
  by (induction xs arbitrary: g) (auto split: outcome.splits)

lemma run_second_apple:
  "main_loop (to_the_apple @ [([], [(330, 250), (321, 262)])]) start_game =
     Continue second_apple_eaten"
  by (simp add: main_loop_append run_to_the_apple tick_second_apple)

lemma tick_two_long: "tick [] [] second_apple_eaten = Continue two_long"
  by code_simp

lemma coiled_keys: "handle_keys [KEYDOWN K_DOWN] (snake coiled) = (True, coiled_down)"
  by code_simp

lemma coiled_move: "move coiled_down = Inr (bitten, True)"
  by code_simp

lemma coiled_tick: "tick [KEYDOWN K_DOWN] [(5, 5)] coiled = Continue after_bite"
  by code_simp

subsection \<open>Relocation\<close>

text \<open>What a returned relocation guarantees, the cells of the grid, a sample that makes
  the retry loop exit, and samples that keep it running.\<close>

lemma randomize_position_loop_differs:
  "randomize_position_loop lp samples a = Some (Inr (a', rest)) \<Longrightarrow> position a' \<noteq> lp"
  by (induction lp samples a rule: randomize_position_loop.induct) (auto split: if_splits)

lemma randomize_position_differs:
  "randomize_position samples a = Some (Inr (a', rest)) \<Longrightarrow> position a' \<noteq> position a"
  unfolding randomize_position_def by (rule randomize_position_loop_differs)

lemma randomize_apple_outside:
  "randomize_apple samples s a = Some (Inr (a', rest)) \<Longrightarrow> position a' \<notin> tail_cache s"
proof (induction samples s a rule: randomize_apple.induct)
  case (1 samples s a)
  from "1.prems" obtain a1 rest1 where r: "randomize_position samples a = Some (Inr (a1, rest1))"
    by (auto split: option.splits sum.splits)
  show ?case
  proof (cases "is_point_in_snake s (position a1)")
    case True
    with "1.prems" r have "randomize_apple rest1 s a1 = Some (Inr (a', rest))" by simp
    with "1.IH" r True show ?thesis by simp
  next
    case False
    with "1.prems" r have "a' = a1" by simp
    with False show ?thesis by (simp add: is_point_in_snake_def)
  qed
qed












section \<open>Direction changes\<close>




section \<open>Growth and length\<close>

text \<open>
  Claim C6. With the growth flag off, \<^verbatim>\<open>move\<close> returns and leaves the number of trailing
  segments as it was (the cache in step with the segments, as the data model has it, so
  that the removal of the dropped tail does not raise). For every snake, \<^verbatim>\<open>increase\<close>
  followed by one \<^verbatim>\<open>move\<close> returns, makes the number of trailing segments one greater,
  the new first segment being the head before the move, and switches the flag off.
\<close>

theorem move_length_dynamics:
  "(tail_cache s = set (positions s) \<and> \<not> increase_flag s \<longrightarrow>
      (\<exists>s' c. move s = Inr (s', c) \<and> length (positions s') = length (positions s))) \<and>
   (\<exists>s' c. move (increase s) = Inr (s', c) \<and>
      length (positions s') = length (positions s) + 1 \<and>
      positions s' = position s # positions s \<and> \<not> increase_flag s')"
proof (intro conjI impI)
  assume h: "tail_cache s = set (positions s) \<and> \<not> increase_flag s"
  then obtain s' c where m: "move s = Inr (s', c)" using move_returns_synced by blast
  from move_fields(8) [OF m] h have "length (positions s') = length (positions s)"
    by (cases "positions s = []") simp_all
  with m show "\<exists>s' c. move s = Inr (s', c) \<and> length (positions s') = length (positions s)"
    by blast
next
  from move_increase [of s] obtain s' c where "move (increase s) = Inr (s', c)"
    "positions s' = position s # positions s" "\<not> increase_flag s'" by blast
  then show "\<exists>s' c. move (increase s) = Inr (s', c) \<and>
      length (positions s') = length (positions s) + 1 \<and>
      positions s' = position s # positions s \<and> \<not> increase_flag s'" by simp
qed

theorem move_length_dynamics_witness:
  "tail_cache two_segments = set (positions two_segments) \<and> \<not> increase_flag two_segments \<and>
   (\<exists>s' c. move two_segments = Inr (s', c) \<and> length (positions s') = 2) \<and>
   (\<exists>s' c. move (increase two_segments) = Inr (s', c) \<and> length (positions s') = 3 \<and>
      positions s' = [(200, 120), (180, 120), (160, 120)] \<and> \<not> increase_flag s')"
proof -
  have pre: "tail_cache two_segments = set (positions two_segments) \<and>
      \<not> increase_flag two_segments"
    using two_segments_fields(1,2) by (rule conjI)
  note t = move_length_dynamics [of two_segments]
  from t pre have "\<exists>s' c. move two_segments = Inr (s', c) \<and>
      length (positions s') = length (positions two_segments)" by blast
  then have a: "\<exists>s' c. move two_segments = Inr (s', c) \<and> length (positions s') = 2"
    unfolding two_segments_fields(3) .
  from t have "\<exists>s' c. move (increase two_segments) = Inr (s', c) \<and>
      length (positions s') = length (positions two_segments) + 1 \<and>
      positions s' = position two_segments # positions two_segments \<and> \<not> increase_flag s'"
    by (rule conjunct2)
  then have b: "\<exists>s' c. move (increase two_segments) = Inr (s', c) \<and> length (positions s') = 3 \<and>
      positions s' = [(200, 120), (180, 120), (160, 120)] \<and> \<not> increase_flag s'"
    unfolding two_segments_fields(4,5) .
  from pre a b show ?thesis by blast
qed

text \<open>
  Claim C10. \<^verbatim>\<open>increase\<close> only sets a flag, so calling it \<open>n \<ge> 1\<close> times before the next
  \<^verbatim>\<open>move\<close> gives the state that one call gives, and that \<^verbatim>\<open>move\<close> adds one trailing
  segment, not \<open>n\<close>.
\<close>

theorem increase_idempotent:
  "0 < n \<Longrightarrow>
     (increase ^^ n) s = increase s \<and>
     (\<exists>s' c. move ((increase ^^ n) s) = Inr (s', c) \<and>
        length (positions s') = length (positions s) + 1 \<and>
        positions s' = position s # positions s \<and> \<not> increase_flag s')"
proof -
  assume "0 < n"
  then obtain m where "n = Suc m" by (cases n) auto
  then have e: "(increase ^^ n) s = increase s" using funpow_increase by simp
  from move_increase [of s] obtain s' c where "move (increase s) = Inr (s', c)"
    "positions s' = position s # positions s" "\<not> increase_flag s'" by blast
  with e show ?thesis by simp
qed

theorem increase_idempotent_witness:
  "(0::nat) < 3 \<and> (increase ^^ 3) two_segments = increase two_segments \<and>
   (\<exists>s' c. move ((increase ^^ 3) two_segments) = Inr (s', c) \<and>
      length (positions s') = 3 \<and>
      positions s' = [(200, 120), (180, 120), (160, 120)] \<and> \<not> increase_flag s')"
proof -
  have h: "(0::nat) < 3" by simp
  from increase_idempotent [OF h, of two_segments]
  have "(increase ^^ 3) two_segments = increase two_segments \<and>
   (\<exists>s' c. move ((increase ^^ 3) two_segments) = Inr (s', c) \<and>
      length (positions s') = 3 \<and>
      positions s' = [(200, 120), (180, 120), (160, 120)] \<and> \<not> increase_flag s')"
    unfolding two_segments_fields(4,5) .
  with h show ?thesis by (rule conjI)
qed

section \<open>Reset\<close>

text \<open>
  Claim C2, as amended. For every snake, \<^verbatim>\<open>reset\<close> empties the trailing segments and the
  cache, restores the direction to the initial one, clears the pending direction and
  leaves the head where it is. It does not assign the growth flag, which stays as it was.
  The flag is off after every \<^verbatim>\<open>reset\<close> of the game: the loop of \<^verbatim>\<open>main\<close> calls
  \<^verbatim>\<open>reset\<close> only on the snake that a \<^verbatim>\<open>move\<close> has just returned, and every \<^verbatim>\<open>move\<close> that
  returns has switched the flag off.
\<close>

theorem reset_effect:
  "positions (reset s) = [] \<and> tail_cache (reset s) = {} \<and>
   direction (reset s) = START_SNAKE_DIRECTION \<and> next_direction (reset s) = None \<and>
   position (reset s) = position s \<and> increase_flag (reset s) = increase_flag s \<and>
   (move s0 = Inr (s', c) \<longrightarrow> \<not> increase_flag (reset s')) \<and>
   (tick evs samples g = Continue g' \<and> handle_keys evs (snake g) = (True, s1) \<and>
      move s1 = Inr (s2, True) \<longrightarrow>
      snake g' = draw (reset s2) \<and> \<not> increase_flag (snake g'))"
proof (intro conjI impI)
  show "positions (reset s) = []" "tail_cache (reset s) = {}"
    "direction (reset s) = START_SNAKE_DIRECTION" "next_direction (reset s) = None"
    "position (reset s) = position s" "increase_flag (reset s) = increase_flag s"
    by (simp_all add: reset_fields START_SNAKE_DIRECTION_def)
  {
    assume "move s0 = Inr (s', c)"
    from move_fields(5) [OF this] show "\<not> increase_flag (reset s')"
      by (simp add: reset_fields)
  }
  {
    assume h: "tick evs samples g = Continue g' \<and> handle_keys evs (snake g) = (True, s1) \<and>
      move s1 = Inr (s2, True)"
    from tick_Continue [of evs samples g g'] h
    show e: "snake g' = draw (reset s2)" by auto
    from h move_fields(5) [of s1 s2 True] show "\<not> increase_flag (snake g')"
      unfolding e by (simp add: draw_fields reset_fields)
  }
qed

theorem reset_effect_witness:
  "move coiled_down = Inr (bitten, True) \<and> \<not> increase_flag (reset bitten) \<and>
   tick [KEYDOWN K_DOWN] [(5, 5)] coiled = Continue after_bite \<and>
   handle_keys [KEYDOWN K_DOWN] (snake coiled) = (True, coiled_down) \<and>
   snake after_bite = draw (reset bitten) \<and> \<not> increase_flag (snake after_bite) \<and>
   positions (reset bitten) = [] \<and> tail_cache (reset bitten) = {} \<and>
   position (reset bitten) = position bitten"
proof -
  note t = reset_effect [of bitten coiled_down bitten True "[KEYDOWN K_DOWN]" "[(5, 5)]"
      coiled after_bite coiled_down bitten]
  from t coiled_move have a: "\<not> increase_flag (reset bitten)" by blast
  from t coiled_tick coiled_keys coiled_move
  have b: "snake after_bite = draw (reset bitten) \<and> \<not> increase_flag (snake after_bite)"
    by blast
  from t have c: "positions (reset bitten) = []" "tail_cache (reset bitten) = {}"
    "position (reset bitten) = position bitten" by blast+
  from coiled_move a coiled_tick coiled_keys b c show ?thesis by (intro conjI) blast+
qed

text \<open>
  The claim as it was worded, that \<^verbatim>\<open>reset\<close> clears the growth flag of every snake, fails
  on a snake marked for growth, such as the one the game has reached when the second
  apple is eaten: the flag is still set after \<^verbatim>\<open>reset\<close>.
\<close>

theorem reset_counterexample:
  "main_loop (to_the_apple @ [([], [(330, 250), (321, 262)])]) start_game =
     Continue second_apple_eaten \<and>
   increase_flag (snake second_apple_eaten) \<and>
   increase_flag (reset (snake second_apple_eaten))"
proof -
  have "increase_flag (snake second_apple_eaten)" by (simp add: second_apple_eaten_def)
  then have "increase_flag (reset (snake second_apple_eaten))" by (simp add: reset_fields)
  with run_second_apple \<open>increase_flag (snake second_apple_eaten)\<close> show ?thesis
    by (intro conjI)
qed

section \<open>Wrap-around\<close>

text \<open>
  Claim C7. Let the head be cell-aligned within the 640 by 480 screen, the cell size
  \<^verbatim>\<open>GRID_SIZE\<close>, and the direction that \<^verbatim>\<open>move\<close> commits one of the four unit
  directions. Then \<^verbatim>\<open>move\<close> returns with a head that is again cell-aligned and within the
  screen; a coordinate that stepped below 0 lands at the extent minus the cell size, one
  that stepped to the extent lands at 0, any other is the stepped coordinate; and from the
  rightmost column moving right the head reappears in column 0 of the same row.
\<close>

theorem toroidal_wrap:
  assumes sz: "size_px s = GRID_SIZE"
    and pos: "position s = (x, y)"
    and x: "0 \<le> x" "x < SCREEN_WIDTH" "GRID_SIZE dvd x"
    and y: "0 \<le> y" "y < SCREEN_HEIGHT" "GRID_SIZE dvd y"
    and d: "(case next_direction s of None \<Rightarrow> direction s | Some n \<Rightarrow> n) = (dx, dy)"
      "(dx, dy) \<in> {UP, DOWN, LEFT, RIGHT}"
    and sync: "tail_cache s = set (positions s)"
  shows "\<exists>s' c x' y'. move s = Inr (s', c) \<and> position s' = (x', y') \<and>
      0 \<le> x' \<and> x' < SCREEN_WIDTH \<and> GRID_SIZE dvd x' \<and>
      0 \<le> y' \<and> y' < SCREEN_HEIGHT \<and> GRID_SIZE dvd y' \<and>
      x' = (if x + dx * GRID_SIZE < 0 then SCREEN_WIDTH - GRID_SIZE
            else if SCREEN_WIDTH \<le> x + dx * GRID_SIZE then 0 else x + dx * GRID_SIZE) \<and>
      y' = (if y + dy * GRID_SIZE < 0 then SCREEN_HEIGHT - GRID_SIZE
            else if SCREEN_HEIGHT \<le> y + dy * GRID_SIZE then 0 else y + dy * GRID_SIZE) \<and>
      (x = SCREEN_WIDTH - GRID_SIZE \<and> (dx, dy) = RIGHT \<longrightarrow> (x', y') = (0, y))"
proof -
  from sync obtain s' c where m: "move s = Inr (s', c)" using move_returns_synced by blast
  note f = move_fields [OF m]
  let ?t = "s\<lparr>direction := direction s'\<rparr>"
  have t: "size_px ?t = GRID_SIZE" "position ?t = (x, y)" "direction ?t = (dx, dy)"
    using sz pos f(1) d(1) by simp_all
  from get_next_head_wrap [OF t(1,2) x y t(3) d(2)] f(6)
  obtain x' y' where p: "position s' = (x', y')"
    and b: "0 \<le> x'" "x' < SCREEN_WIDTH" "GRID_SIZE dvd x'"
      "0 \<le> y'" "y' < SCREEN_HEIGHT" "GRID_SIZE dvd y'"
    and ex: "x' = (if x + dx * GRID_SIZE < 0 then SCREEN_WIDTH - GRID_SIZE
            else if SCREEN_WIDTH \<le> x + dx * GRID_SIZE then 0 else x + dx * GRID_SIZE)"
    and ey: "y' = (if y + dy * GRID_SIZE < 0 then SCREEN_HEIGHT - GRID_SIZE
            else if SCREEN_HEIGHT \<le> y + dy * GRID_SIZE then 0 else y + dy * GRID_SIZE)"
    by auto
  have edge: "x = SCREEN_WIDTH - GRID_SIZE \<and> (dx, dy) = RIGHT \<longrightarrow> (x', y') = (0, y)"
    using ex ey y by (auto simp: RIGHT_def SCREEN_WIDTH_def GRID_SIZE_def SCREEN_HEIGHT_def)
  from m p b ex ey edge show ?thesis by blast
qed

theorem toroidal_wrap_witness:
  "size_px at_right_edge = GRID_SIZE \<and> position at_right_edge = (620, 120) \<and>
   (0::int) \<le> 620 \<and> 620 < SCREEN_WIDTH \<and> GRID_SIZE dvd 620 \<and>
   (0::int) \<le> 120 \<and> 120 < SCREEN_HEIGHT \<and> GRID_SIZE dvd 120 \<and>
   (case next_direction at_right_edge of None \<Rightarrow> direction at_right_edge | Some n \<Rightarrow> n) = (1, 0) \<and>
   (1, 0) \<in> {UP, DOWN, LEFT, RIGHT} \<and>
   tail_cache at_right_edge = set (positions at_right_edge) \<and>
   (\<exists>s' c. move at_right_edge = Inr (s', c) \<and> position s' = (0, 120))"
proof -
  have sz: "size_px at_right_edge = GRID_SIZE" by (simp add: at_right_edge_def)
  have pos: "position at_right_edge = (620, 120)" by (simp add: at_right_edge_def)
  have x: "(0::int) \<le> 620" "620 < SCREEN_WIDTH" "GRID_SIZE dvd 620"
    by (simp_all add: SCREEN_WIDTH_def GRID_SIZE_def)
  have y: "(0::int) \<le> 120" "120 < SCREEN_HEIGHT" "GRID_SIZE dvd 120"
    by (simp_all add: SCREEN_HEIGHT_def GRID_SIZE_def)
  have d: "(case next_direction at_right_edge of None \<Rightarrow> direction at_right_edge | Some n \<Rightarrow> n) = (1, 0)"
    "(1, 0) \<in> {UP, DOWN, LEFT, RIGHT}"
    by (simp_all add: at_right_edge_def RIGHT_def)
  have sync: "tail_cache at_right_edge = set (positions at_right_edge)"
    by (simp add: at_right_edge_def)
  have e: "620 = SCREEN_WIDTH - GRID_SIZE \<and> (1, 0) = RIGHT"
    by (simp add: SCREEN_WIDTH_def GRID_SIZE_def RIGHT_def)
  from toroidal_wrap [OF sz pos x y d sync] e
  have "\<exists>s' c. move at_right_edge = Inr (s', c) \<and> position s' = (0, 120)" by auto
  with sz pos x y d sync show ?thesis by (intro conjI)
qed

section \<open>Invariants of the running game\<close>

text \<open>
  Claim C3. In every state that the loop of \<^verbatim>\<open>main\<close> reaches from the start of the game,
  the cache is the set of the trailing segments. It is so before \<^verbatim>\<open>move\<close> (after the
  keys of the tick are handled), \<^verbatim>\<open>move\<close> returns there and it is so after it, and also
  after the \<^verbatim>\<open>reset\<close> or the \<^verbatim>\<open>increase\<close> that may follow.
\<close>

theorem cache_mirrors_segments:
  assumes "main_loop inputs start_game = Continue g"
  shows "tail_cache (snake g) = set (positions (snake g)) \<and>
    (\<forall>evs b s1. handle_keys evs (snake g) = (b, s1) \<longrightarrow>
       tail_cache s1 = set (positions s1) \<and>
       (\<exists>s2 c. move s1 = Inr (s2, c) \<and> tail_cache s2 = set (positions s2) \<and>
          tail_cache (reset s2) = set (positions (reset s2)) \<and>
          tail_cache (increase s2) = set (positions (increase s2))))"
proof (intro conjI allI impI)
  from reachable_inv [OF assms] have inv: "snake_inv (snake g)" .
  then show "tail_cache (snake g) = set (positions (snake g))" by (rule snake_invD(1))
  fix evs b s1
  assume hk: "handle_keys evs (snake g) = (b, s1)"
  show "tail_cache s1 = set (positions s1)" using inv hk by (rule move_after_keys(1))
  from move_after_keys(2) [OF inv hk] obtain s2 c where m: "move s1 = Inr (s2, c)" by blast
  from move_after_keys(3) [OF inv hk m] have "tail_cache s2 = set (positions s2)" by simp
  then have "tail_cache s2 = set (positions s2) \<and>
          tail_cache (reset s2) = set (positions (reset s2)) \<and>
          tail_cache (increase s2) = set (positions (increase s2))"
    by (simp add: reset_fields increase_fields)
  with m show "\<exists>s2 c. move s1 = Inr (s2, c) \<and> tail_cache s2 = set (positions s2) \<and>
          tail_cache (reset s2) = set (positions (reset s2)) \<and>
          tail_cache (increase s2) = set (positions (increase s2))" by blast
qed

theorem cache_mirrors_segments_witness:
  "main_loop (to_the_apple @ [([], [(330, 250), (321, 262)])]) start_game =
     Continue second_apple_eaten \<and>
   tail_cache (snake second_apple_eaten) = set (positions (snake second_apple_eaten)) \<and>
   (\<exists>b s1. handle_keys [KEYDOWN K_LEFT] (snake second_apple_eaten) = (b, s1) \<and>
       tail_cache s1 = set (positions s1) \<and>
       (\<exists>s2 c. move s1 = Inr (s2, c) \<and> tail_cache s2 = set (positions s2) \<and>
          tail_cache (reset s2) = set (positions (reset s2)) \<and>
          tail_cache (increase s2) = set (positions (increase s2))))"
proof -
  note t = cache_mirrors_segments [OF run_second_apple]
  obtain b s1 where hk: "handle_keys [KEYDOWN K_LEFT] (snake second_apple_eaten) = (b, s1)"
    by (cases "handle_keys [KEYDOWN K_LEFT] (snake second_apple_eaten)")
  from t hk have "tail_cache s1 = set (positions s1) \<and>
       (\<exists>s2 c. move s1 = Inr (s2, c) \<and> tail_cache s2 = set (positions s2) \<and>
          tail_cache (reset s2) = set (positions (reset s2)) \<and>
          tail_cache (increase s2) = set (positions (increase s2)))" by blast
  with hk have "\<exists>b s1. handle_keys [KEYDOWN K_LEFT] (snake second_apple_eaten) = (b, s1) \<and>
       tail_cache s1 = set (positions s1) \<and>
       (\<exists>s2 c. move s1 = Inr (s2, c) \<and> tail_cache s2 = set (positions s2) \<and>
          tail_cache (reset s2) = set (positions (reset s2)) \<and>
          tail_cache (increase s2) = set (positions (increase s2)))" by blast
  with run_second_apple t show ?thesis by blast
qed

text \<open>
  Claim C4. In every state that the loop of \<^verbatim>\<open>main\<close> reaches, the head is neither among
  the trailing segments nor in the cache. A tick from such a state that reports a
  collision ends with no segment and an empty cache; one that does not leaves the head and
  the cache of \<^verbatim>\<open>move\<close>, the head outside the cache.
\<close>

theorem head_outside_tail:
  assumes "main_loop inputs start_game = Continue g"
  shows "position (snake g) \<notin> set (positions (snake g)) \<and>
    position (snake g) \<notin> tail_cache (snake g) \<and>
    (\<forall>evs samples g'. tick evs samples g = Continue g' \<longrightarrow>
       (\<exists>s1 s2 c. handle_keys evs (snake g) = (True, s1) \<and> move s1 = Inr (s2, c) \<and>
          (if c then positions (snake g') = [] \<and> tail_cache (snake g') = {}
           else position (snake g') = position s2 \<and> tail_cache (snake g') = tail_cache s2 \<and>
                position s2 \<notin> tail_cache s2) \<and>
          position (snake g') \<notin> tail_cache (snake g')))"
proof (intro conjI allI impI)
  from reachable_inv [OF assms] have inv: "snake_inv (snake g)" .
  note i = snake_invD [OF inv]
  show "position (snake g) \<notin> set (positions (snake g))" by (rule i(3))
  then show "position (snake g) \<notin> tail_cache (snake g)" by (simp add: i(1))
  fix evs samples g'
  assume t: "tick evs samples g = Continue g'"
  from tick_Continue [OF t] obtain s1 s2 c where hk: "handle_keys evs (snake g) = (True, s1)"
    and m: "move s1 = Inr (s2, c)"
    and g': "if c then snake g' = draw (reset s2)
       else snake g' = draw s2 \<or> snake g' = draw (increase s2)" by blast
  from move_after_keys(3) [OF inv hk m]
  have y: "tail_cache s2 = set (positions s2)" "c = (position s2 \<in> set (positions s2))"
    by simp_all
  have r: "if c then positions (snake g') = [] \<and> tail_cache (snake g') = {}
           else position (snake g') = position s2 \<and> tail_cache (snake g') = tail_cache s2 \<and>
                position s2 \<notin> tail_cache s2"
  proof (cases c)
    case True
    with g' have "snake g' = draw (reset s2)" by simp
    with True show ?thesis by (simp add: draw_fields reset_fields)
  next
    case False
    with g' have "snake g' = draw s2 \<or> snake g' = draw (increase s2)" by simp
    then have "position (snake g') = position s2 \<and> tail_cache (snake g') = tail_cache s2"
      by (auto simp: draw_fields increase_fields)
    with False y show ?thesis by simp
  qed
  have "position (snake g') \<notin> tail_cache (snake g')"
    using r by (cases c) simp_all
  with hk m r show "\<exists>s1 s2 c. handle_keys evs (snake g) = (True, s1) \<and> move s1 = Inr (s2, c) \<and>
          (if c then positions (snake g') = [] \<and> tail_cache (snake g') = {}
           else position (snake g') = position s2 \<and> tail_cache (snake g') = tail_cache s2 \<and>
                position s2 \<notin> tail_cache s2) \<and>
          position (snake g') \<notin> tail_cache (snake g')" by blast
qed

theorem head_outside_tail_witness:
  "main_loop (to_the_apple @ [([], [(330, 250), (321, 262)])]) start_game =
     Continue second_apple_eaten \<and>
   position (snake second_apple_eaten) \<notin> set (positions (snake second_apple_eaten)) \<and>
   position (snake second_apple_eaten) \<notin> tail_cache (snake second_apple_eaten) \<and>
   tick [] [] second_apple_eaten = Continue two_long \<and>
   (\<exists>s1 s2 c. handle_keys [] (snake second_apple_eaten) = (True, s1) \<and>
      move s1 = Inr (s2, c) \<and>
      (if c then positions (snake two_long) = [] \<and> tail_cache (snake two_long) = {}
       else position (snake two_long) = position s2 \<and>
            tail_cache (snake two_long) = tail_cache s2 \<and> position s2 \<notin> tail_cache s2) \<and>
      position (snake two_long) \<notin> tail_cache (snake two_long))"
proof -
  note t = head_outside_tail [OF run_second_apple]
  from t tick_two_long
  have "\<exists>s1 s2 c. handle_keys [] (snake second_apple_eaten) = (True, s1) \<and>
      move s1 = Inr (s2, c) \<and>
      (if c then positions (snake two_long) = [] \<and> tail_cache (snake two_long) = {}
       else position (snake two_long) = position s2 \<and>
            tail_cache (snake two_long) = tail_cache s2 \<and> position s2 \<notin> tail_cache s2) \<and>
      position (snake two_long) \<notin> tail_cache (snake two_long)" by blast
  with run_second_apple tick_two_long t show ?thesis by blast
qed

text \<open>
  Claim C5. \<^verbatim>\<open>move\<close> returns whether the new head is in the cache as the same call has
  updated it (old head inserted, tail dropped unless the snake grows), the new head being
  the next head in the committed direction. In every state that the loop of \<^verbatim>\<open>main\<close>
  reaches, the test is the membership of the new head in the trailing segments, and the
  new head is not the head before the move: the old head, which the update has put into
  the cache, never makes the test fire.
\<close>

theorem collision_test:
  "(tail_cache s = set (positions s) \<longrightarrow>
      (\<exists>s' c. move s = Inr (s', c) \<and> c = (position s' \<in> tail_cache s') \<and>
         position s' = get_next_head (s\<lparr>direction := direction s'\<rparr>) \<and>
         tail_cache s' =
           (if increase_flag s then insert (position s) (tail_cache s)
            else if positions s = [] then tail_cache s
            else insert (position s) (tail_cache s - {last (positions s)})))) \<and>
   (main_loop inputs start_game = Continue g \<longrightarrow>
      (\<forall>evs b s1. handle_keys evs (snake g) = (b, s1) \<longrightarrow>
         (\<exists>s' c. move s1 = Inr (s', c) \<and> c = (position s' \<in> set (positions s')) \<and>
            position s' \<noteq> position s1)))"
proof (intro conjI allI impI)
  assume "tail_cache s = set (positions s)"
  then obtain s' c where m: "move s = Inr (s', c)" using move_returns_synced by blast
  from m move_fields(7,6,9) [OF m]
  show "\<exists>s' c. move s = Inr (s', c) \<and> c = (position s' \<in> tail_cache s') \<and>
         position s' = get_next_head (s\<lparr>direction := direction s'\<rparr>) \<and>
         tail_cache s' =
           (if increase_flag s then insert (position s) (tail_cache s)
            else if positions s = [] then tail_cache s
            else insert (position s) (tail_cache s - {last (positions s)}))" by blast
next
  fix evs b s1
  assume r: "main_loop inputs start_game = Continue g"
    and hk: "handle_keys evs (snake g) = (b, s1)"
  from reachable_inv [OF r] have inv: "snake_inv (snake g)" .
  from move_after_keys(2) [OF inv hk] obtain s' c where m: "move s1 = Inr (s', c)" by blast
  from move_after_keys(3) [OF inv hk m]
  have y: "c = (position s' \<in> set (positions s'))" "direction s' \<in> {UP, DOWN, LEFT, RIGHT}"
    by simp_all
  have sz: "size_px s1 = GRID_SIZE"
    using snake_invD(6) [OF inv] handle_keys_fields(2) [OF hk] by simp
  let ?t = "s1\<lparr>direction := direction s'\<rparr>"
  have "get_next_head ?t \<noteq> position ?t"
    using y(2) by (intro get_next_head_moves) (simp_all add: sz)
  then have "position s' \<noteq> position s1" using move_fields(6) [OF m] by simp
  with m y(1) show "\<exists>s' c. move s1 = Inr (s', c) \<and> c = (position s' \<in> set (positions s')) \<and>
            position s' \<noteq> position s1" by blast
qed

theorem collision_test_witness:
  "tail_cache two_segments = set (positions two_segments) \<and>
   (\<exists>s' c. move two_segments = Inr (s', c) \<and> c = (position s' \<in> tail_cache s') \<and>
      position s' = get_next_head (two_segments\<lparr>direction := direction s'\<rparr>) \<and>
      tail_cache s' =
        (if increase_flag two_segments
         then insert (position two_segments) (tail_cache two_segments)
         else if positions two_segments = [] then tail_cache two_segments
         else insert (position two_segments)
                (tail_cache two_segments - {last (positions two_segments)}))) \<and>
   main_loop (to_the_apple @ [([], [(330, 250), (321, 262)])]) start_game =
     Continue second_apple_eaten \<and>
   (\<exists>b s1. handle_keys [] (snake second_apple_eaten) = (b, s1) \<and>
      (\<exists>s' c. move s1 = Inr (s', c) \<and> c = (position s' \<in> set (positions s')) \<and>
         position s' \<noteq> position s1))"
proof -
  note t = collision_test [of two_segments
      "to_the_apple @ [([], [(330, 250), (321, 262)])]" second_apple_eaten]
  from t two_segments_fields(1)
  have a: "\<exists>s' c. move two_segments = Inr (s', c) \<and> c = (position s' \<in> tail_cache s') \<and>
      position s' = get_next_head (two_segments\<lparr>direction := direction s'\<rparr>) \<and>
      tail_cache s' =
        (if increase_flag two_segments
         then insert (position two_segments) (tail_cache two_segments)
         else if positions two_segments = [] then tail_cache two_segments
         else insert (position two_segments)
                (tail_cache two_segments - {last (positions two_segments)}))" by blast
  obtain b s1 where hk: "handle_keys [] (snake second_apple_eaten) = (b, s1)"
    by (cases "handle_keys [] (snake second_apple_eaten)")
  from t run_second_apple hk
  have "\<exists>s' c. move s1 = Inr (s', c) \<and> c = (position s' \<in> set (positions s')) \<and>
         position s' \<noteq> position s1" by blast
  with hk have b: "\<exists>b s1. handle_keys [] (snake second_apple_eaten) = (b, s1) \<and>
      (\<exists>s' c. move s1 = Inr (s', c) \<and> c = (position s' \<in> set (positions s')) \<and>
         position s' \<noteq> position s1)" by blast
  from two_segments_fields(1) a run_second_apple b show ?thesis by (intro conjI)
qed

section \<open>Relocation of the apple\<close>

text \<open>
  Claim C8 says that a relocation never returns a position of the snake's tail, which
  holds (\<open>randomize_apple_outside\<close>), and never the position the apple had when the
  relocation began. Each call of \<^verbatim>\<open>randomize_position\<close> only avoids the position the
  apple has at that call (\<open>randomize_position_differs\<close>), and \<^verbatim>\<open>randomize_apple\<close> calls
  it again after a rejected throw, when that position is the rejected one. In the run
  below the head eats the apple at \<open>(320, 260)\<close> with one trailing segment at
  \<open>(320, 240)\<close>; the first throw lands on that segment and is rejected, the second lands
  on \<open>(320, 260)\<close> and is kept: the apple is where it was, under the head.
\<close>

theorem relocation_returns_previous_position:
  "main_loop to_the_apple start_game = Continue first_apple_eaten \<and>
   tick [] [(330, 250), (321, 262)] first_apple_eaten = Continue second_apple_eaten \<and>
   randomize_apple [(330, 250), (321, 262)] (snake second_apple_eaten) (apple first_apple_eaten) =
     Some (Inr (apple first_apple_eaten, [])) \<and>
   position (apple second_apple_eaten) = position (apple first_apple_eaten) \<and>
   position (apple second_apple_eaten) = position (snake second_apple_eaten)"
proof -
  have "randomize_apple [(330, 250), (321, 262)] (snake second_apple_eaten)
      (apple first_apple_eaten) = Some (Inr (apple first_apple_eaten, []))"
    by code_simp
  moreover have "position (apple second_apple_eaten) = position (apple first_apple_eaten)"
    "position (apple second_apple_eaten) = position (snake second_apple_eaten)"
    by (simp_all add: first_apple_eaten_def second_apple_eaten_def)
  ultimately show ?thesis using run_to_the_apple tick_second_apple by (intro conjI)
qed




end
